theory Spec2Isabelle
  imports Main
begin

section \<open>The ASR input-method engine (src/asrime.cpp)\<close>

text \<open>
  A shallow embedding of the Fcitx5 addon: the read handler of the commit FIFO with its
  pending buffer, the commit step, the hot-key table and its loader, key-event dispatch,
  the command sender and the FIFO provisioner. Bytes are \<open>char\<close>, a \<open>std::string\<close> is a
  \<open>string\<close>, a nullable pointer is an \<open>option\<close>. Logging through \<open>FCITX_INFO\<close> is left
  out; the warnings of \<open>sendCommand\<close> are kept as events because they are the only effect
  of one of its branches. The mutex around \<open>activeIC_\<close> is not modelled: every handler is
  one atomic step.
\<close>

subsection \<open>Bytes and strings\<close>

unbundle bit_operations_syntax

abbreviation NL :: char where "NL \<equiv> CHR 0x0A"
abbreviation CR :: char where "CR \<equiv> CHR 0x0D"

text \<open>\<open>std::string::find(c)\<close>: the index of the first occurrence, \<open>None\<close> for \<open>npos\<close>.\<close>

fun find_char :: "char \<Rightarrow> string \<Rightarrow> nat option" where
  "find_char c [] = None"
| "find_char c (x # xs) = (if x = c then Some 0 else map_option Suc (find_char c xs))"

subsection \<open>The engine state\<close>

text \<open>
  An input context is an opaque handle of the host. \<open>activeIC_\<close> is a pointer that may be
  \<open>nullptr\<close>; the contexts that events carry are never null. The field \<open>commits\<close> is not a
  member of the class: it records, oldest first, the calls \<open>ic->commitString(text)\<close> made on
  the host, which is the only output of the read handler.
\<close>

type_synonym ic = nat

record 'k engine =
  activeIC :: "ic option"
  pending :: string
  toggleKeys :: "'k list"
  commits :: "(ic \<times> string) list"

subsection \<open>commitLine\<close>

definition commitLine :: "'k engine \<Rightarrow> string \<Rightarrow> 'k engine" where
  "commitLine e text =
     (if text = [] then e
      else (case activeIC e of
              None \<Rightarrow> e
            | Some c \<Rightarrow> e\<lparr>commits := commits e @ [(c, text)]\<rparr>))"

subsection \<open>onCommitReadable\<close>

text \<open>
  What one call of \<open>read(fd, buf, sizeof buf)\<close> returns: \<open>ReadBytes s\<close> is the return value
  \<open>n = length s\<close> with the bytes \<open>s\<close> in the buffer (so \<open>ReadBytes []\<close> is \<open>n = 0\<close>; the
  system never returns more than the 4096 bytes of the buffer), \<open>ReadError e\<close> is \<open>n = -1\<close>
  with \<open>errno = e\<close>.
\<close>

datatype errno = EAGAIN | EWOULDBLOCK | EEXIST | EISDIR | EPERM | EACCES | ENOENT | EIO | ENXIO

datatype read_result = ReadBytes string | ReadError errno

text \<open>
  The first loop of the handler. Its argument is the pending buffer and the results of the
  successive \<open>read\<close> calls of this invocation. The loop goes on after a positive result and
  stops at \<open>n = 0\<close> and at every error (\<open>EAGAIN\<close>/\<open>EWOULDBLOCK\<close> silently, any other with a
  warning). A script that ends without a stopping result stands for a descriptor that then
  has nothing to deliver; a non-blocking descriptor answers that with \<open>EAGAIN\<close>.
\<close>

fun drain :: "string \<Rightarrow> read_result list \<Rightarrow> string" where
  "drain p [] = p"
| "drain p (ReadBytes s # rs) = (if 0 < length s then drain (p @ s) rs else p)"
| "drain p (ReadError e # rs) = p"

text \<open>The line that is handed to \<open>commitLine\<close>: one trailing \<open>'\r'\<close> is popped.\<close>

definition pop_cr :: "string \<Rightarrow> string" where
  "pop_cr line = (if line \<noteq> [] \<and> last line = CR then butlast line else line)"

lemma pending_commitLine [simp]: "pending (commitLine e t) = pending e"
  by (simp add: commitLine_def split: option.splits)

lemma find_char_less: "find_char c s = Some pos \<Longrightarrow> pos < length s"
  by (induction s arbitrary: pos) (auto split: if_splits)

text \<open>
  The second loop: while the buffer holds a newline, cut the line before it, erase line
  and newline from the front of the buffer, pop a trailing \<open>'\r'\<close>, call \<open>commitLine\<close>.
\<close>

function process_pending :: "'k engine \<Rightarrow> 'k engine" where
  "process_pending e =
     (case find_char NL (pending e) of
        None \<Rightarrow> e
      | Some pos \<Rightarrow>
          (let line = take pos (pending e);
               e1 = e\<lparr>pending := drop (pos + 1) (pending e)\<rparr>
           in process_pending (commitLine e1 (pop_cr line))))"
  by pat_completeness auto
termination
  by (relation "measure (\<lambda>e. length (pending e))") (auto dest: find_char_less)

definition onCommitReadable :: "'k engine \<Rightarrow> read_result list \<Rightarrow> 'k engine" where
  "onCommitReadable e rs = process_pending (e\<lparr>pending := drain (pending e) rs\<rparr>)"

declare process_pending.simps [simp del]

subsection \<open>Focus notifications\<close>

definition activate :: "'k engine \<Rightarrow> ic \<Rightarrow> 'k engine" where
  "activate e c = e\<lparr>activeIC := Some c\<rparr>"

definition deactivate :: "'k engine \<Rightarrow> ic \<Rightarrow> 'k engine" where
  "deactivate e c = (if activeIC e = Some c then e\<lparr>activeIC := None\<rparr> else e)"

definition reset :: "'k engine \<Rightarrow> ic \<Rightarrow> 'k engine" where
  "reset e c = e"

subsection \<open>Keys\<close>

text \<open>
  \<open>fcitx::Key\<close> belongs to the Fcitx5 library, not to this repository. The engine uses four
  of its operations, which are taken as a parameter: the constructor from a descriptor
  string, \<open>isValid\<close>, \<open>normalize\<close> and \<open>check\<close>. \<open>checkKeyList\<close> is the library's template
  that looks for an element of the list that \<open>check\<close> accepts.
\<close>

record 'k key_api =
  key_parse :: "string \<Rightarrow> 'k"
  key_isValid :: "'k \<Rightarrow> bool"
  key_normalize :: "'k \<Rightarrow> 'k"
  key_check :: "'k \<Rightarrow> 'k \<Rightarrow> bool"

definition checkKeyList :: "'k key_api \<Rightarrow> 'k \<Rightarrow> 'k list \<Rightarrow> bool" where
  "checkKeyList K k ks = list_ex (key_check K k) ks"

definition defaultHotkeys :: "'k key_api \<Rightarrow> 'k list" where
  "defaultHotkeys K =
     [key_parse K ''Control+Alt+v'', key_parse K ''Control+Alt+r'',
      key_parse K ''F8'', key_parse K ''Shift+F8'']"

subsection \<open>Loading the hot keys\<close>

text \<open>\<open>std::isspace\<close> in the C locale: space, and the five controls from tab to return.\<close>

definition isspace :: "char \<Rightarrow> bool" where
  "isspace c = (c = CHR 0x20 \<or> c = CHR 0x09 \<or> c = CHR 0x0A \<or> c = CHR 0x0B \<or> c = CHR 0x0C \<or> c = CR)"

definition trim :: "string \<Rightarrow> string" where
  "trim s = (let s1 = dropWhile isspace s in rev (dropWhile isspace (rev s1)))"

text \<open>The two environment variables \<open>getenv\<close> is asked for; \<open>None\<close> is a null pointer.\<close>

record environ =
  XDG_CONFIG_HOME :: "string option"
  HOME :: "string option"

definition hotkeyConfigPath :: "environ \<Rightarrow> string" where
  "hotkeyConfigPath env =
     (case XDG_CONFIG_HOME env of
        Some (x # xs) \<Rightarrow> (x # xs) @ ''/asr-ime-fcitx/hotkeys.conf''
      | _ \<Rightarrow>
          (case HOME env of
             Some (h # hs) \<Rightarrow> (h # hs) @ ''/.config/asr-ime-fcitx/hotkeys.conf''
           | _ \<Rightarrow> []))"

text \<open>
  \<open>std::getline\<close> on the rest of the stream: it fails at the end of the input when nothing
  is left to extract; otherwise it delivers the bytes before the next newline (or all of
  them, when there is none) and drops that newline.
\<close>

definition getline :: "string \<Rightarrow> (string \<times> string) option" where
  "getline inp =
     (if inp = [] then None
      else (let line = takeWhile (\<lambda>c. c \<noteq> NL) inp
            in Some (line, drop (length line + 1) inp)))"

lemma getline_shorter: "getline inp = Some (line, rest) \<Longrightarrow> length rest < length inp"
  by (auto simp: getline_def Let_def split: if_splits)

text \<open>The \<open>while (std::getline(in, line))\<close> loop of \<open>loadHotkeys\<close>, with its vector \<open>keys\<close>.\<close>

function read_keys :: "'k key_api \<Rightarrow> string \<Rightarrow> 'k list \<Rightarrow> 'k list" where
  "read_keys K inp keys =
     (case getline inp of
        None \<Rightarrow> keys
      | Some (line0, rest) \<Rightarrow>
          (let line = trim line0 in
           if line = [] \<or> hd line = CHR ''#'' then read_keys K rest keys
           else (let key = key_parse K line in
                 if key_isValid K key then read_keys K rest (keys @ [key])
                 else read_keys K rest keys)))"
  by pat_completeness auto
termination
  by (relation "measure (\<lambda>(K, inp, keys). length inp)") (auto dest: getline_shorter)

declare read_keys.simps [simp del]

text \<open>
  The files that \<open>std::ifstream\<close> can open, with their contents; \<open>None\<close> is a path that
  cannot be opened.
\<close>

type_synonym files = "string \<Rightarrow> string option"

definition loadHotkeys :: "'k key_api \<Rightarrow> environ \<Rightarrow> files \<Rightarrow> 'k list" where
  "loadHotkeys K env fs =
     (let path = hotkeyConfigPath env; defaults = defaultHotkeys K in
      if path = [] then defaults
      else (case fs path of
              None \<Rightarrow> defaults
            | Some content \<Rightarrow>
                (let keys = read_keys K content [] in
                 if keys \<noteq> [] then keys else defaults)))"

subsection \<open>ensureFifo\<close>










subsection \<open>sendCommand and keyEvent\<close>

definition kCmdFifo :: string where
  "kCmdFifo = ''/tmp/fcitx-asr-ime-cmd.fifo''"

definition kCommitFifo :: string where
  "kCommitFifo = ''/tmp/fcitx-asr-ime-commit.fifo''"

text \<open>
  What the system answers to the \<open>open\<close> and the \<open>write\<close> of one \<open>sendCommand\<close>, and what
  \<open>sendCommand\<close> does, in order: the calls it makes (\<open>Open\<close> is with \<open>O_WRONLY | O_NONBLOCK\<close>,
  \<open>Write fd bs\<close> hands the bytes \<open>bs\<close> to one \<open>write\<close>) and the warnings it logs.
\<close>

record cmd_answers =
  open_ret :: int
  write_ret :: int

datatype sys_event = Open string | Write int string | Close int | Warn string

text \<open>\<open>strlen\<close>: the number of bytes before the first NUL.\<close>

definition strlen :: "string \<Rightarrow> nat" where
  "strlen s = length (takeWhile (\<lambda>c. c \<noteq> CHR 0x00) s)"

definition sendCommand :: "cmd_answers \<Rightarrow> string \<Rightarrow> sys_event list" where
  "sendCommand a cmd =
     (let fd = open_ret a in
      if fd < 0 then [Open kCmdFifo, Warn ''ASR daemon command FIFO not ready'']
      else (let len = strlen cmd; written = write_ret a
            in [Open kCmdFifo, Write fd (take len cmd)]
               @ (if written < 0 then [Warn ''Write command failed''] else [])
               @ [Close fd]))"

record 'k key_event =
  isRelease :: bool
  key :: 'k
  inputContext :: ic

text \<open>
  The result of \<open>keyEvent\<close>: the engine, whether \<open>filterAndAccept\<close> was called on the event,
  and what \<open>sendCommand\<close> did.
\<close>

definition keyEvent ::
  "'k key_api \<Rightarrow> cmd_answers \<Rightarrow> 'k engine \<Rightarrow> 'k key_event \<Rightarrow> 'k engine \<times> bool \<times> sys_event list" where
  "keyEvent K a e ev =
     (if isRelease ev then (e, False, [])
      else (let e1 = e\<lparr>activeIC := Some (inputContext ev)\<rparr>;
                k = key_normalize K (key ev)
            in if key_check K k (key_parse K ''Shift+F8'')
               then (e1, True, sendCommand a (''command'' @ [NL]))
               else if checkKeyList K k (toggleKeys e1)
               then (e1, True, sendCommand a (''toggle'' @ [NL]))
               else (e1, False, [])))"

subsection \<open>The engine as a transition system\<close>

datatype 'k event =
    Activate ic
  | Deactivate ic
  | Reset ic
  | KeyEv "'k key_event" cmd_answers
  | CommitReadable "read_result list"

fun step :: "'k key_api \<Rightarrow> 'k engine \<Rightarrow> 'k event \<Rightarrow> 'k engine" where
  "step K e (Activate c) = activate e c"
| "step K e (Deactivate c) = deactivate e c"
| "step K e (Reset c) = reset e c"
| "step K e (KeyEv ev a) = fst (keyEvent K a e ev)"
| "step K e (CommitReadable rs) = onCommitReadable e rs"

section \<open>Reference definitions\<close>

text \<open>
  Splitting a byte string once on newline, as the specification words it: the pieces
  between the newlines. All pieces but the last are terminated by a newline (the complete
  lines); the last piece is what follows the final newline (the partial line).
\<close>

fun split_nl :: "string \<Rightarrow> string list" where
  "split_nl [] = [[]]"
| "split_nl (c # cs) =
     (if c = NL then [] # split_nl cs
      else (case split_nl cs of l # ls \<Rightarrow> (c # l) # ls | [] \<Rightarrow> [[c]]))"

definition complete_lines :: "string \<Rightarrow> string list" where
  "complete_lines s = butlast (split_nl s)"

definition partial_line :: "string \<Rightarrow> string" where
  "partial_line s = last (split_nl s)"

text \<open>The bytes that the first loop of the handler appends in one invocation.\<close>

fun drained :: "read_result list \<Rightarrow> string" where
  "drained [] = []"
| "drained (ReadBytes s # rs) = (if 0 < length s then s @ drained rs else [])"
| "drained (ReadError e # rs) = []"

text \<open>
  Stripping the trailing carriage returns of a line, read as all of them: the line without
  its longest suffix of \<open>'\r'\<close>.
\<close>

definition strip_trailing_crs :: "string \<Rightarrow> string" where
  "strip_trailing_crs l = rev (dropWhile (\<lambda>c. c = CR) (rev l))"

text \<open>
  The lines that the \<open>getline\<close> loop sees in a file: the pieces of one split on newline,
  without the empty piece after a final newline; an empty file has no line. A descriptor
  is a trimmed line that is neither empty nor a comment; \<open>valid_keys\<close> are the keys of the
  descriptors that the library accepts, in the order of the file.
\<close>

definition file_lines :: "string \<Rightarrow> string list" where
  "file_lines s =
     (if s = [] then [] else if last s = NL then butlast (split_nl s) else split_nl s)"

definition descriptors :: "string \<Rightarrow> string list" where
  "descriptors content =
     filter (\<lambda>l. l \<noteq> [] \<and> hd l \<noteq> CHR ''#'') (map trim (file_lines content))"

definition valid_keys :: "'k key_api \<Rightarrow> string \<Rightarrow> 'k list" where
  "valid_keys K content =
     filter (key_isValid K) (map (key_parse K) (descriptors content))"

text \<open>What a list of events of \<open>sendCommand\<close> holds: the byte strings handed to \<open>write\<close>.\<close>

definition writes :: "sys_event list \<Rightarrow> string list" where
  "writes evs = concat (map (\<lambda>ev. case ev of Write fd bs \<Rightarrow> [bs] | _ \<Rightarrow> []) evs)"

definition opens :: "sys_event list \<Rightarrow> string list" where
  "opens evs = concat (map (\<lambda>ev. case ev of Open p \<Rightarrow> [p] | _ \<Rightarrow> []) evs)"

definition closes :: "sys_event list \<Rightarrow> int list" where
  "closes evs = concat (map (\<lambda>ev. case ev of Close fd \<Rightarrow> [fd] | _ \<Rightarrow> []) evs)"

subsection \<open>An instance of the key interface\<close>

text \<open>
  A small implementation of the four key operations, on which the definitions can be
  evaluated. It reads the descriptor grammar of the configuration file: modifier names
  (\<open>Control\<close>, \<open>Alt\<close>, \<open>Shift\<close>, \<open>Super\<close>), each followed by \<open>+\<close>, before a key name. A key
  is valid when its name is a non-empty word of letters, digits and underscores, and an
  unknown modifier gives the invalid key with the empty name. Keys are compared by their
  name and modifiers, and normalising changes nothing. The theorems below hold for every
  implementation of the interface; this one serves only where a concrete key is needed.
\<close>

record xkey =
  ksym :: string
  kctrl :: bool
  kalt :: bool
  kshift :: bool
  ksuper :: bool

fun fields :: "string \<Rightarrow> string list" where
  "fields [] = [[]]"
| "fields (c # cs) =
     (if c = CHR ''+'' then [] # fields cs
      else (case fields cs of f # fs \<Rightarrow> (c # f) # fs | [] \<Rightarrow> [[c]]))"

fun with_modifiers :: "string list \<Rightarrow> xkey \<Rightarrow> xkey option" where
  "with_modifiers [] k = Some k"
| "with_modifiers (m # ms) k =
     (if m = ''Control'' then with_modifiers ms (k\<lparr>kctrl := True\<rparr>)
      else if m = ''Alt'' then with_modifiers ms (k\<lparr>kalt := True\<rparr>)
      else if m = ''Shift'' then with_modifiers ms (k\<lparr>kshift := True\<rparr>)
      else if m = ''Super'' then with_modifiers ms (k\<lparr>ksuper := True\<rparr>)
      else None)"

definition xkey_parse :: "string \<Rightarrow> xkey" where
  "xkey_parse d =
     (let fs = fields d;
          none = \<lparr>ksym = [], kctrl = False, kalt = False, kshift = False, ksuper = False\<rparr>
      in case with_modifiers (butlast fs) none of
           None \<Rightarrow> none
         | Some k \<Rightarrow> k\<lparr>ksym := last fs\<rparr>)"

definition xkey_valid :: "xkey \<Rightarrow> bool" where
  "xkey_valid k =
     (ksym k \<noteq> [] \<and>
      list_all (\<lambda>c. c \<in> set ''abcdefghijklmnopqrstuvwxyzABCDEFGHIJKLMNOPQRSTUVWXYZ0123456789_'')
        (ksym k))"

definition sample_keys :: "xkey key_api" where
  "sample_keys = \<lparr>key_parse = xkey_parse, key_isValid = xkey_valid,
     key_normalize = (\<lambda>k. k), key_check = (\<lambda>k k'. k = k')\<rparr>"

text \<open>A configuration file with five descriptors, and an environment that leads to it.\<close>

definition sample_conf :: string where
  "sample_conf =
     ''# toggle keys'' @ [NL] @ ''  Control+space '' @ [CR, NL] @ [NL] @ ''not a key'' @ [NL]
     @ ''F9'' @ [NL] @ ''Hyper+x'' @ [NL] @ ''Alt+Shift+F2''"

definition sample_env :: environ where
  "sample_env = \<lparr>XDG_CONFIG_HOME = Some ''/cfg'', HOME = Some ''/home/u''\<rparr>"

section \<open>The read handler and the split\<close>

lemma split_nl_nonempty [simp]: "split_nl s \<noteq> []"
  by (induction s) (auto split: list.splits)

lemma find_char_None: "find_char c s = None \<longleftrightarrow> c \<notin> set s"
  by (induction s) auto

lemma split_nl_no_newline: "NL \<notin> set s \<Longrightarrow> split_nl s = [s]"
  by (induction s) auto

lemma split_nl_find:
  "find_char NL s = Some pos \<Longrightarrow> split_nl s = take pos s # split_nl (drop (pos + 1) s)"
proof (induction s arbitrary: pos)
  case Nil
  then show ?case by simp
next
  case (Cons c cs)
  show ?case
  proof (cases "c = NL")
    case True
    with Cons.prems show ?thesis by simp
  next
    case False
    with Cons.prems obtain q where q: "find_char NL cs = Some q" "pos = Suc q"
      by auto
    from Cons.IH [OF q(1)] False q(2) show ?thesis by simp
  qed
qed

lemma complete_lines_find:
  "find_char NL s = Some pos \<Longrightarrow>
     complete_lines s = take pos s # complete_lines (drop (pos + 1) s)"
  by (simp add: complete_lines_def split_nl_find)

lemma partial_line_find:
  "find_char NL s = Some pos \<Longrightarrow> partial_line s = partial_line (drop (pos + 1) s)"
  by (simp add: partial_line_def split_nl_find)

lemma drain_drained: "drain p rs = p @ drained rs"
  by (induction p rs rule: drain.induct) auto

lemma foldl_commitLine_pending [simp]: "pending (foldl commitLine e ls) = pending e"
  by (induction ls arbitrary: e) auto

lemma commitLine_pending_update:
  "(commitLine e l)\<lparr>pending := q\<rparr> = commitLine (e\<lparr>pending := q\<rparr>) l"
  by (simp add: commitLine_def split: option.splits)

lemma process_pending_split:
  "process_pending e =
     foldl commitLine (e\<lparr>pending := partial_line (pending e)\<rparr>)
       (map pop_cr (complete_lines (pending e)))"
proof (induction e rule: process_pending.induct)
  case (1 e)
  show ?case
  proof (cases "find_char NL (pending e)")
    case None
    then have "NL \<notin> set (pending e)" by (simp add: find_char_None)
    then have "split_nl (pending e) = [pending e]" by (rule split_nl_no_newline)
    with None show ?thesis
      by (subst process_pending.simps) (simp add: complete_lines_def partial_line_def)
  next
    case (Some pos)
    let ?e1 = "e\<lparr>pending := drop (pos + 1) (pending e)\<rparr>"
    let ?l = "pop_cr (take pos (pending e))"
    have step: "process_pending e = process_pending (commitLine ?e1 ?l)"
      using Some by (subst process_pending.simps) (simp add: Let_def)
    have ih: "process_pending (commitLine ?e1 ?l) =
        foldl commitLine ((commitLine ?e1 ?l)\<lparr>pending := partial_line (pending (commitLine ?e1 ?l))\<rparr>)
          (map pop_cr (complete_lines (pending (commitLine ?e1 ?l))))"
      using "1.IH" [OF Some refl refl] .
    show ?thesis
      unfolding step ih
      by (simp add: complete_lines_find [OF Some] partial_line_find [OF Some] commitLine_pending_update)
  qed
qed


lemma split_nl_append:
  "split_nl (a @ b) = butlast (split_nl a) @ split_nl (last (split_nl a) @ b)"
proof (induction a)
  case Nil
  then show ?case by simp
next
  case (Cons c cs)
  show ?case
  proof (cases "c = NL")
    case True
    with Cons.IH show ?thesis by simp
  next
    case False
    obtain l ls where sp: "split_nl cs = l # ls"
      by (cases "split_nl cs") auto
    show ?thesis
    proof (cases ls)
      case Nil
      with sp Cons.IH False show ?thesis by simp
    next
      case (Cons l' ls')
      with sp Cons.IH False show ?thesis
        by (simp split: list.splits)
    qed
  qed
qed

lemma complete_lines_append:
  "complete_lines (a @ b) = complete_lines a @ complete_lines (partial_line a @ b)"
  by (simp add: complete_lines_def partial_line_def split_nl_append [of a b] butlast_append)

lemma partial_line_append:
  "partial_line (a @ b) = partial_line (partial_line a @ b)"
  by (simp add: partial_line_def split_nl_append [of a b])

lemma split_nl_no_NL: "l \<in> set (split_nl s) \<Longrightarrow> NL \<notin> set l"
  by (induction s arbitrary: l) (auto split: if_splits list.splits)

lemma partial_line_no_NL: "NL \<notin> set (partial_line s)"
  using split_nl_no_NL [of "last (split_nl s)" s] by (simp add: partial_line_def)

lemma complete_lines_no_newline [simp]: "NL \<notin> set s \<Longrightarrow> complete_lines s = []"
  by (simp add: complete_lines_def split_nl_no_newline)

lemma partial_line_no_newline [simp]: "NL \<notin> set s \<Longrightarrow> partial_line s = s"
  by (simp add: partial_line_def split_nl_no_newline)

lemma split_nl_join:
  "concat (map (\<lambda>l. l @ [NL]) (butlast (split_nl s))) @ last (split_nl s) = s"
  by (induction s) (auto split: list.splits)

lemma foldl_commitLine_pending_update:
  "(foldl commitLine e ls)\<lparr>pending := q\<rparr> = foldl commitLine (e\<lparr>pending := q\<rparr>) ls"
  by (induction ls arbitrary: e) (simp_all add: commitLine_pending_update)

lemma onCommitReadable_split:
  "onCommitReadable e rs =
     foldl commitLine (e\<lparr>pending := partial_line (pending e @ drained rs)\<rparr>)
       (map pop_cr (complete_lines (pending e @ drained rs)))"
  unfolding onCommitReadable_def process_pending_split drain_drained by simp

lemma run_split:
  "NL \<notin> set (pending e) \<Longrightarrow>
   foldl onCommitReadable e invs =
     foldl commitLine (e\<lparr>pending := partial_line (pending e @ concat (map drained invs))\<rparr>)
       (map pop_cr (complete_lines (pending e @ concat (map drained invs))))"
proof (induction invs arbitrary: e)
  case Nil
  then show ?case by simp
next
  case (Cons rs invs)
  let ?s = "pending e @ drained rs"
  let ?e' = "onCommitReadable e rs"
  let ?B = "concat (map drained invs)"
  have p': "pending ?e' = partial_line ?s"
    by (simp add: onCommitReadable_split)
  then have "NL \<notin> set (pending ?e')"
    by (simp add: partial_line_no_NL)
  from Cons.IH [OF this]
  have "foldl onCommitReadable ?e' invs =
      foldl commitLine (?e'\<lparr>pending := partial_line (partial_line ?s @ ?B)\<rparr>)
        (map pop_cr (complete_lines (partial_line ?s @ ?B)))"
    by (simp only: p')
  also have "?e'\<lparr>pending := partial_line (partial_line ?s @ ?B)\<rparr> =
      foldl commitLine (e\<lparr>pending := partial_line (partial_line ?s @ ?B)\<rparr>)
        (map pop_cr (complete_lines ?s))"
    by (simp add: onCommitReadable_split foldl_commitLine_pending_update)
  finally have run: "foldl onCommitReadable ?e' invs =
      foldl commitLine (e\<lparr>pending := partial_line (partial_line ?s @ ?B)\<rparr>)
        (map pop_cr (complete_lines ?s) @ map pop_cr (complete_lines (partial_line ?s @ ?B)))"
    by simp
  have cl: "complete_lines (pending e @ drained rs @ ?B) =
      complete_lines ?s @ complete_lines (partial_line ?s @ ?B)"
    using complete_lines_append [of ?s ?B] by simp
  have pl: "partial_line (pending e @ drained rs @ ?B) = partial_line (partial_line ?s @ ?B)"
    using partial_line_append [of ?s ?B] by simp
  show ?case
    by (simp add: run cl pl)
qed

lemma commits_foldl_commitLine:
  "activeIC e = Some c \<Longrightarrow>
   commits (foldl commitLine e ls) = commits e @ map (Pair c) (filter (\<lambda>l. l \<noteq> []) ls)"
  by (induction ls arbitrary: e) (simp_all add: commitLine_def)

lemma foldl_commitLine_inactive:
  "activeIC e = None \<Longrightarrow> foldl commitLine e ls = e"
  by (induction ls arbitrary: e) (simp_all add: commitLine_def)

lemma activeIC_foldl_commitLine [simp]: "activeIC (foldl commitLine e ls) = activeIC e"
  by (induction ls arbitrary: e) (simp_all add: commitLine_def split: option.splits)

lemma toggleKeys_foldl_commitLine [simp]: "toggleKeys (foldl commitLine e ls) = toggleKeys e"
  by (induction ls arbitrary: e) (simp_all add: commitLine_def split: option.splits)

lemma split_nl_terminated: "NL \<notin> set s \<Longrightarrow> split_nl (s @ [NL]) = [s, []]"
  by (induction s) auto

lemma pop_cr_snoc: "pop_cr (l @ [CR]) = l"
  by (simp add: pop_cr_def)

lemma pop_cr_keep: "l = [] \<or> last l \<noteq> CR \<Longrightarrow> pop_cr l = l"
  by (auto simp: pop_cr_def)

lemma commits_onCommitReadable:
  "activeIC e = Some c \<Longrightarrow>
   commits (onCommitReadable e rs) =
     commits e @ map (Pair c) (filter (\<lambda>l. l \<noteq> [])
       (map pop_cr (complete_lines (pending e @ drained rs))))"
  by (simp add: onCommitReadable_split commits_foldl_commitLine)

lemma pending_onCommitReadable:
  "pending (onCommitReadable e rs) = partial_line (pending e @ drained rs)"
  by (simp add: onCommitReadable_split)

section \<open>The loop of loadHotkeys\<close>

lemma takeWhile_find_char:
  "find_char NL s = Some pos \<Longrightarrow> takeWhile (\<lambda>c. c \<noteq> NL) s = take pos s"
  by (induction s arbitrary: pos) (auto split: if_splits)

lemma takeWhile_no_newline: "NL \<notin> set s \<Longrightarrow> takeWhile (\<lambda>c. c \<noteq> NL) s = s"
  by (induction s) auto

lemma file_lines_getline:
  assumes "getline inp = Some (l, rest)"
  shows "file_lines inp = l # file_lines rest"
proof -
  from assms have ne: "inp \<noteq> []"
    and l: "l = takeWhile (\<lambda>c. c \<noteq> NL) inp"
    and rest: "rest = drop (length l + 1) inp"
    by (auto simp: getline_def Let_def split: if_splits)
  show ?thesis
  proof (cases "find_char NL inp")
    case None
    then have n: "NL \<notin> set inp" by (simp add: find_char_None)
    with l have "l = inp" by (simp add: takeWhile_no_newline)
    with rest have "rest = []" by simp
    moreover from n ne have "last inp \<noteq> NL"
      using last_in_set by metis
    ultimately show ?thesis
      using ne n \<open>l = inp\<close> by (simp add: file_lines_def split_nl_no_newline)
  next
    case (Some pos)
    then have lt: "pos < length inp" by (rule find_char_less)
    from Some l have l': "l = take pos inp" by (simp add: takeWhile_find_char)
    with lt rest have rest': "rest = drop (pos + 1) inp" by simp
    have sp: "split_nl inp = l # split_nl rest"
      using split_nl_find [OF Some] l' rest' by simp
    show ?thesis
    proof (cases "rest = []")
      case True
      with rest' lt have "pos + 1 = length inp" by simp
      moreover from Some have "inp ! pos = NL"
        by (induction inp arbitrary: pos) (auto split: if_splits)
      ultimately have "last inp = NL"
        using ne by (metis add_diff_cancel_right' last_conv_nth)
      with ne sp True show ?thesis by (simp add: file_lines_def)
    next
      case False
      with rest' have "last inp = last rest" by simp
      with ne sp False show ?thesis by (simp add: file_lines_def)
    qed
  qed
qed

lemma file_lines_getline_None: "getline inp = None \<Longrightarrow> file_lines inp = []"
  by (simp add: getline_def file_lines_def Let_def split: if_splits)

lemma read_keys_valid_keys: "read_keys K inp keys = keys @ valid_keys K inp"
proof (induction K inp keys rule: read_keys.induct)
  case (1 K inp keys)
  show ?case
  proof (cases "getline inp")
    case None
    then show ?thesis
      by (subst read_keys.simps)
        (simp add: valid_keys_def descriptors_def file_lines_getline_None)
  next
    case (Some lr)
    obtain l rest where lr: "lr = (l, rest)" by (cases lr)
    with Some have g: "getline inp = Some (l, rest)" by simp
    note fl = file_lines_getline [OF g]
    show ?thesis
    proof (cases "trim l = [] \<or> hd (trim l) = CHR ''#''")
      case True
      with "1.IH"(1) [OF g refl refl] g fl show ?thesis
        by (subst read_keys.simps) (auto simp: valid_keys_def descriptors_def)
    next
      case False
      show ?thesis
      proof (cases "key_isValid K (key_parse K (trim l))")
        case True
        with "1.IH"(2) [OF g refl refl False refl] False g fl show ?thesis
          by (subst read_keys.simps) (auto simp: valid_keys_def descriptors_def)
      next
        case nv: False
        with "1.IH"(3) [OF g refl refl False refl] False g fl show ?thesis
          by (subst read_keys.simps) (auto simp: valid_keys_def descriptors_def)
      qed
    qed
  qed
qed

lemma defaultHotkeys_nonempty: "defaultHotkeys K \<noteq> []"
  by (simp add: defaultHotkeys_def)

lemma descriptors_sample_conf:
  "descriptors sample_conf = [''Control+space'', ''not a key'', ''F9'', ''Hyper+x'', ''Alt+Shift+F2'']"
  by (simp add: descriptors_def sample_conf_def file_lines_def trim_def isspace_def)

lemma path_sample_env: "hotkeyConfigPath sample_env = ''/cfg/asr-ime-fcitx/hotkeys.conf''"
  by (simp add: hotkeyConfigPath_def sample_env_def)

section \<open>sendCommand and ensureFifo\<close>

lemma strlen_no_nul:
  assumes "CHR 0x00 \<notin> set s"
  shows "take (strlen s) s = s"
proof -
  from assms have "takeWhile (\<lambda>c. c \<noteq> CHR 0x00) s = s"
    by (induction s) auto
  then show ?thesis unfolding strlen_def by (simp only: take_all order_refl)
qed

lemma writes_sendCommand:
  "writes (sendCommand a cmd) = (if open_ret a < 0 then [] else [take (strlen cmd) cmd])"
  by (simp add: sendCommand_def writes_def Let_def)

lemma opens_sendCommand: "opens (sendCommand a cmd) = [kCmdFifo]"
  by (simp add: sendCommand_def opens_def Let_def)

lemma closes_sendCommand:
  "closes (sendCommand a cmd) = (if open_ret a < 0 then [] else [open_ret a])"
  by (simp add: sendCommand_def closes_def Let_def)








section \<open>The claims\<close>

text \<open>
  C1. Chunk boundaries are transparent. Take an engine whose pending buffer holds no
  newline (as it is after construction and after every run of the handler) and any sequence
  of handler invocations, each with any sequence of read results. The engine that results
  (buffer, active context and the commits made on the host) is the one that a single
  invocation reaches when it reads all the bytes in one piece. It is the engine reached by
  handing to \<open>commitLine\<close>, in order, the complete lines of one split of all the bytes on
  newline, each with one trailing carriage return popped, and keeping the partial line as
  the buffer. Any two ways of cutting the same bytes into reads and invocations end in the
  same engine, and with an active context the commits are the non-empty ones of these
  lines.
\<close>

theorem fragmentation_transparent:
  assumes "NL \<notin> set (pending e)"
  shows "foldl onCommitReadable e invs = onCommitReadable e [ReadBytes (concat (map drained invs))]
    \<and> foldl onCommitReadable e invs =
        foldl commitLine (e\<lparr>pending := partial_line (pending e @ concat (map drained invs))\<rparr>)
          (map pop_cr (complete_lines (pending e @ concat (map drained invs))))
    \<and> (\<forall>invs'. concat (map drained invs') = concat (map drained invs) \<longrightarrow>
          foldl onCommitReadable e invs' = foldl onCommitReadable e invs)
    \<and> (\<forall>c. activeIC e = Some c \<longrightarrow>
          commits (foldl onCommitReadable e invs) =
            commits e @ map (Pair c) (filter (\<lambda>l. l \<noteq> [])
              (map pop_cr (complete_lines (pending e @ concat (map drained invs))))))"
proof -
  let ?B = "concat (map drained invs)"
  have one: "drained [ReadBytes ?B] = ?B" by simp
  have a: "foldl onCommitReadable e invs = onCommitReadable e [ReadBytes ?B]"
    unfolding run_split [OF assms] onCommitReadable_split one ..
  have b: "\<forall>invs'. concat (map drained invs') = ?B \<longrightarrow>
          foldl onCommitReadable e invs' = foldl onCommitReadable e invs"
    by (simp add: run_split [OF assms])
  have c: "\<forall>c. activeIC e = Some c \<longrightarrow>
          commits (foldl onCommitReadable e invs) =
            commits e @ map (Pair c) (filter (\<lambda>l. l \<noteq> [])
              (map pop_cr (complete_lines (pending e @ ?B))))"
    by (simp add: run_split [OF assms] commits_foldl_commitLine)
  note d = run_split [OF assms, of invs]
  from a d b c show ?thesis by blast
qed

theorem fragmentation_transparent_witness:
  "NL \<notin> set (pending \<lparr>activeIC = Some 1, pending = ''he'', toggleKeys = [] :: unit list, commits = []\<rparr>)
   \<and> foldl onCommitReadable
        \<lparr>activeIC = Some 1, pending = ''he'', toggleKeys = [] :: unit list, commits = []\<rparr>
        [[ReadBytes ''l'', ReadBytes ''l'', ReadError EAGAIN],
         [ReadBytes ''o'', ReadBytes [CR], ReadBytes []],
         [ReadBytes [NL]],
         [ReadBytes (''a'' @ [NL, NL] @ ''b''), ReadBytes (''c'' @ [NL] @ ''d''), ReadError EIO, ReadBytes ''x'']]
      = \<lparr>activeIC = Some 1, pending = ''d'', toggleKeys = [],
          commits = [(1, ''hello''), (1, ''a''), (1, ''bc'')]\<rparr>"
proof -
  let ?e = "\<lparr>activeIC = Some 1, pending = ''he'', toggleKeys = [] :: unit list, commits = []\<rparr>"
  let ?invs = "[[ReadBytes ''l'', ReadBytes ''l'', ReadError EAGAIN],
         [ReadBytes ''o'', ReadBytes [CR], ReadBytes []],
         [ReadBytes [NL]],
         [ReadBytes (''a'' @ [NL, NL] @ ''b''), ReadBytes (''c'' @ [NL] @ ''d''), ReadError EIO, ReadBytes ''x'']]"
  have h: "NL \<notin> set (pending ?e)" by simp
  have "foldl onCommitReadable ?e ?invs =
      onCommitReadable ?e [ReadBytes (concat (map drained ?invs))]"
    using fragmentation_transparent [OF h, of ?invs] by blast
  also have "\<dots> = \<lparr>activeIC = Some 1, pending = ''d'', toggleKeys = [],
          commits = [(1, ''hello''), (1, ''a''), (1, ''bc'')]\<rparr>"
    by (simp add: onCommitReadable_split complete_lines_def partial_line_def pop_cr_def
        commitLine_def)
  finally show ?thesis using h by simp
qed

text \<open>
  C2 (amended). With the default table loaded, a key-press that matches one of its four
  bindings is always consumed. When it matches the command-mode shortcut \<open>Shift+F8\<close>,
  which is itself the fourth default binding, the command token is sent, because that
  check comes first; otherwise the key matches \<open>Control+Alt+v\<close>, \<open>Control+Alt+r\<close> or \<open>F8\<close>
  and the toggle token is sent. When the command FIFO opens, the bytes written are the
  token followed by one newline.
\<close>

theorem default_hotkeys_dispatch:
  assumes "\<not> isRelease ev" and "toggleKeys e = defaultHotkeys K"
    and "checkKeyList K (key_normalize K (key ev)) (defaultHotkeys K)"
  shows "fst (snd (keyEvent K a e ev)) = True
    \<and> (key_check K (key_normalize K (key ev)) (key_parse K ''Shift+F8'') \<longrightarrow>
         snd (snd (keyEvent K a e ev)) = sendCommand a (''command'' @ [NL]))
    \<and> (\<not> key_check K (key_normalize K (key ev)) (key_parse K ''Shift+F8'') \<longrightarrow>
         snd (snd (keyEvent K a e ev)) = sendCommand a (''toggle'' @ [NL])
         \<and> (key_check K (key_normalize K (key ev)) (key_parse K ''Control+Alt+v'')
            \<or> key_check K (key_normalize K (key ev)) (key_parse K ''Control+Alt+r'')
            \<or> key_check K (key_normalize K (key ev)) (key_parse K ''F8'')))
    \<and> (0 \<le> open_ret a \<longrightarrow>
         writes (sendCommand a (''command'' @ [NL])) = [''command'' @ [NL]]
         \<and> writes (sendCommand a (''toggle'' @ [NL])) = [''toggle'' @ [NL]])"
  using assms
  by (auto simp: keyEvent_def Let_def checkKeyList_def defaultHotkeys_def writes_sendCommand
      strlen_def)

theorem default_hotkeys_dispatch_witness:
  "snd (keyEvent sample_keys \<lparr>open_ret = 7, write_ret = 7\<rparr>
      \<lparr>activeIC = None, pending = [], toggleKeys = defaultHotkeys sample_keys, commits = []\<rparr>
      \<lparr>isRelease = False, key = xkey_parse ''F8'', inputContext = 3\<rparr>)
     = (True, [Open kCmdFifo, Write 7 (''toggle'' @ [NL]), Close 7])
   \<and> snd (keyEvent sample_keys \<lparr>open_ret = 7, write_ret = 7\<rparr>
      \<lparr>activeIC = None, pending = [], toggleKeys = defaultHotkeys sample_keys, commits = []\<rparr>
      \<lparr>isRelease = False, key = xkey_parse ''Control+Alt+v'', inputContext = 3\<rparr>)
     = (True, [Open kCmdFifo, Write 7 (''toggle'' @ [NL]), Close 7])"
proof -
  let ?e = "\<lparr>activeIC = None, pending = [], toggleKeys = defaultHotkeys sample_keys, commits = []\<rparr>"
  let ?a = "\<lparr>open_ret = 7, write_ret = 7\<rparr>"
  let ?f8 = "\<lparr>isRelease = False, key = xkey_parse ''F8'', inputContext = 3\<rparr>"
  let ?cav = "\<lparr>isRelease = False, key = xkey_parse ''Control+Alt+v'', inputContext = 3\<rparr>"
  have sc: "sendCommand ?a (''toggle'' @ [NL]) = [Open kCmdFifo, Write 7 (''toggle'' @ [NL]), Close 7]"
    by (simp add: sendCommand_def strlen_def)
  have r: "\<not> isRelease ?f8" "\<not> isRelease ?cav" by simp_all
  have t: "toggleKeys ?e = defaultHotkeys sample_keys" by simp
  have m: "checkKeyList sample_keys (key_normalize sample_keys (key ?f8)) (defaultHotkeys sample_keys)"
    "checkKeyList sample_keys (key_normalize sample_keys (key ?cav)) (defaultHotkeys sample_keys)"
    by (simp_all add: checkKeyList_def defaultHotkeys_def sample_keys_def)
  have n: "\<not> key_check sample_keys (key_normalize sample_keys (key ?f8)) (key_parse sample_keys ''Shift+F8'')"
    "\<not> key_check sample_keys (key_normalize sample_keys (key ?cav)) (key_parse sample_keys ''Shift+F8'')"
    by (simp_all add: sample_keys_def xkey_parse_def)
  from default_hotkeys_dispatch [OF r(1) t m(1), of ?a] n(1)
  have 1: "snd (keyEvent sample_keys ?a ?e ?f8) = (True, sendCommand ?a (''toggle'' @ [NL]))"
    by (simp add: prod_eq_iff)
  from default_hotkeys_dispatch [OF r(2) t m(2), of ?a] n(2)
  have 2: "snd (keyEvent sample_keys ?a ?e ?cav) = (True, sendCommand ?a (''toggle'' @ [NL]))"
    by (simp add: prod_eq_iff)
  from 1 2 show ?thesis unfolding sc by blast
qed

text \<open>
  C2 as stated fails at the fourth default binding: with the default table loaded, a press
  of \<open>Shift+F8\<close> matches a default binding and sends \<open>"command\n"\<close>, not the toggle token.
\<close>

theorem default_shift_f8_counterexample:
  "checkKeyList sample_keys
      (key_normalize sample_keys (key \<lparr>isRelease = False, key = xkey_parse ''Shift+F8'', inputContext = 3\<rparr>))
      (defaultHotkeys sample_keys)
   \<and> snd (keyEvent sample_keys \<lparr>open_ret = 7, write_ret = 8\<rparr>
      \<lparr>activeIC = None, pending = [], toggleKeys = defaultHotkeys sample_keys, commits = []\<rparr>
      \<lparr>isRelease = False, key = xkey_parse ''Shift+F8'', inputContext = 3\<rparr>)
     = (True, [Open kCmdFifo, Write 7 (''command'' @ [NL]), Close 7])
   \<and> snd (snd (keyEvent sample_keys \<lparr>open_ret = 7, write_ret = 8\<rparr>
      \<lparr>activeIC = None, pending = [], toggleKeys = defaultHotkeys sample_keys, commits = []\<rparr>
      \<lparr>isRelease = False, key = xkey_parse ''Shift+F8'', inputContext = 3\<rparr>))
     \<noteq> sendCommand \<lparr>open_ret = 7, write_ret = 8\<rparr> (''toggle'' @ [NL])"
  by (simp add: keyEvent_def checkKeyList_def defaultHotkeys_def sample_keys_def sendCommand_def
      strlen_def)

text \<open>
  C3. The table that \<open>loadHotkeys\<close> returns. When no path resolves, or the file cannot
  be opened, it is the default set. When the file is read, it is the list of the keys of
  the valid descriptors, in the order of the file, and the default set when there is no
  valid descriptor. In particular, a file with five descriptors of which three are valid
  gives exactly the three keys of the valid ones, in file order. The table is never empty;
  the default set has four entries.
\<close>

theorem loadHotkeys_table:
  "(hotkeyConfigPath env = [] \<longrightarrow> loadHotkeys K env fs = defaultHotkeys K)
   \<and> (fs (hotkeyConfigPath env) = None \<longrightarrow> loadHotkeys K env fs = defaultHotkeys K)
   \<and> (hotkeyConfigPath env \<noteq> [] \<and> fs (hotkeyConfigPath env) = Some content \<longrightarrow>
        loadHotkeys K env fs =
          (if valid_keys K content = [] then defaultHotkeys K else valid_keys K content))
   \<and> (hotkeyConfigPath env \<noteq> [] \<and> fs (hotkeyConfigPath env) = Some content
        \<and> length (descriptors content) = 5
        \<and> length (filter (\<lambda>d. key_isValid K (key_parse K d)) (descriptors content)) = 3 \<longrightarrow>
        loadHotkeys K env fs =
          map (key_parse K) (filter (\<lambda>d. key_isValid K (key_parse K d)) (descriptors content))
        \<and> length (loadHotkeys K env fs) = 3)
   \<and> loadHotkeys K env fs \<noteq> []
   \<and> length (defaultHotkeys K) = 4"
proof -
  have vk: "valid_keys K c =
      map (key_parse K) (filter (\<lambda>d. key_isValid K (key_parse K d)) (descriptors c))" for c
    by (simp add: valid_keys_def filter_map comp_def)
  have a: "hotkeyConfigPath env = [] \<longrightarrow> loadHotkeys K env fs = defaultHotkeys K"
    by (simp add: loadHotkeys_def)
  have b: "fs (hotkeyConfigPath env) = None \<longrightarrow> loadHotkeys K env fs = defaultHotkeys K"
    by (simp add: loadHotkeys_def Let_def)
  have c: "hotkeyConfigPath env \<noteq> [] \<and> fs (hotkeyConfigPath env) = Some content \<longrightarrow>
        loadHotkeys K env fs =
          (if valid_keys K content = [] then defaultHotkeys K else valid_keys K content)"
    by (simp add: loadHotkeys_def Let_def read_keys_valid_keys)
  have d: "hotkeyConfigPath env \<noteq> [] \<and> fs (hotkeyConfigPath env) = Some content
        \<and> length (descriptors content) = 5
        \<and> length (filter (\<lambda>d. key_isValid K (key_parse K d)) (descriptors content)) = 3 \<longrightarrow>
        loadHotkeys K env fs =
          map (key_parse K) (filter (\<lambda>d. key_isValid K (key_parse K d)) (descriptors content))
        \<and> length (loadHotkeys K env fs) = 3"
  proof
    assume h: "hotkeyConfigPath env \<noteq> [] \<and> fs (hotkeyConfigPath env) = Some content
        \<and> length (descriptors content) = 5
        \<and> length (filter (\<lambda>d. key_isValid K (key_parse K d)) (descriptors content)) = 3"
    then have "length (valid_keys K content) = 3" by (simp add: vk)
    then have "valid_keys K content \<noteq> []" by auto
    with h c show "loadHotkeys K env fs =
          map (key_parse K) (filter (\<lambda>d. key_isValid K (key_parse K d)) (descriptors content))
        \<and> length (loadHotkeys K env fs) = 3"
      by (simp add: vk)
  qed
  have e: "loadHotkeys K env fs \<noteq> []"
    by (simp add: loadHotkeys_def Let_def defaultHotkeys_nonempty split: option.splits)
  have f: "length (defaultHotkeys K) = 4"
    by (simp add: defaultHotkeys_def)
  from a b c d e f show ?thesis by blast
qed

theorem loadHotkeys_table_witness:
  "loadHotkeys sample_keys sample_env
      (\<lambda>p. if p = ''/cfg/asr-ime-fcitx/hotkeys.conf'' then Some sample_conf else None)
     = [xkey_parse ''Control+space'', xkey_parse ''F9'', xkey_parse ''Alt+Shift+F2'']
   \<and> loadHotkeys sample_keys sample_env
      (\<lambda>p. if p = ''/cfg/asr-ime-fcitx/hotkeys.conf'' then Some (''# none'' @ [NL] @ ''a b'' @ [NL]) else None)
     = defaultHotkeys sample_keys
   \<and> loadHotkeys sample_keys sample_env (\<lambda>p. None) = defaultHotkeys sample_keys
   \<and> loadHotkeys sample_keys \<lparr>XDG_CONFIG_HOME = None, HOME = Some []\<rparr>
      (\<lambda>p. Some sample_conf) = defaultHotkeys sample_keys"
proof -
  let ?fs = "\<lambda>p. if p = ''/cfg/asr-ime-fcitx/hotkeys.conf'' then Some sample_conf else None"
  let ?gs = "\<lambda>p. if p = ''/cfg/asr-ime-fcitx/hotkeys.conf''
      then Some (''# none'' @ [NL] @ ''a b'' @ [NL]) else None"
  have v: "filter (\<lambda>d. key_isValid sample_keys (key_parse sample_keys d)) (descriptors sample_conf)
      = [''Control+space'', ''F9'', ''Alt+Shift+F2'']"
    by (simp add: descriptors_sample_conf sample_keys_def xkey_parse_def xkey_valid_def)
  have h: "hotkeyConfigPath sample_env \<noteq> [] \<and> ?fs (hotkeyConfigPath sample_env) = Some sample_conf
        \<and> length (descriptors sample_conf) = 5
        \<and> length (filter (\<lambda>d. key_isValid sample_keys (key_parse sample_keys d))
             (descriptors sample_conf)) = 3"
    by (simp add: v) (simp add: path_sample_env descriptors_sample_conf)
  from h loadHotkeys_table [of sample_env sample_keys ?fs sample_conf]
  have "loadHotkeys sample_keys sample_env ?fs =
      map (key_parse sample_keys)
        (filter (\<lambda>d. key_isValid sample_keys (key_parse sample_keys d)) (descriptors sample_conf))"
    by blast
  then have a: "loadHotkeys sample_keys sample_env ?fs =
      [xkey_parse ''Control+space'', xkey_parse ''F9'', xkey_parse ''Alt+Shift+F2'']"
    by (simp add: v) (simp add: sample_keys_def)
  have v0: "valid_keys sample_keys (''# none'' @ [NL] @ ''a b'' @ [NL]) = []"
    by (simp add: valid_keys_def descriptors_def file_lines_def trim_def isspace_def
        sample_keys_def xkey_parse_def xkey_valid_def)
  have h0: "hotkeyConfigPath sample_env \<noteq> [] \<and>
      ?gs (hotkeyConfigPath sample_env) = Some (''# none'' @ [NL] @ ''a b'' @ [NL])"
    by (simp add: path_sample_env)
  from h0 loadHotkeys_table [of sample_env sample_keys ?gs "''# none'' @ [NL] @ ''a b'' @ [NL]"]
  have "loadHotkeys sample_keys sample_env ?gs =
      (if valid_keys sample_keys (''# none'' @ [NL] @ ''a b'' @ [NL]) = []
       then defaultHotkeys sample_keys
       else valid_keys sample_keys (''# none'' @ [NL] @ ''a b'' @ [NL]))"
    by blast
  then have b: "loadHotkeys sample_keys sample_env ?gs = defaultHotkeys sample_keys"
    by (simp only: v0) simp
  have c: "loadHotkeys sample_keys sample_env (\<lambda>p. None) = defaultHotkeys sample_keys"
    using loadHotkeys_table [of sample_env sample_keys "\<lambda>p. None"] by simp
  have "hotkeyConfigPath \<lparr>XDG_CONFIG_HOME = None, HOME = Some []\<rparr> = []"
    by (simp add: hotkeyConfigPath_def)
  with loadHotkeys_table [of "\<lparr>XDG_CONFIG_HOME = None, HOME = Some []\<rparr>" sample_keys
      "\<lambda>p. Some sample_conf"]
  have d: "loadHotkeys sample_keys \<lparr>XDG_CONFIG_HOME = None, HOME = Some []\<rparr>
      (\<lambda>p. Some sample_conf) = defaultHotkeys sample_keys"
    by blast
  from a b c d show ?thesis by blast
qed

text \<open>
  C4. Key-event dispatch. A release leaves the engine as it is, does not touch the event
  and sends nothing. A press sets the active context to the context of the event. Then the
  normalised key is checked against \<open>Shift+F8\<close>: on a match the command token is sent and
  the key is consumed. Otherwise it is looked up in the toggle keys (some element that
  \<open>check\<close> accepts): on a match the toggle token is sent and the key is consumed. Otherwise
  nothing is sent and the event is left untouched.
\<close>

theorem keyEvent_dispatch:
  "(isRelease ev \<longrightarrow> keyEvent K a e ev = (e, False, []))
   \<and> (\<not> isRelease ev \<longrightarrow>
        fst (keyEvent K a e ev) = e\<lparr>activeIC := Some (inputContext ev)\<rparr>)
   \<and> (\<not> isRelease ev \<and> key_check K (key_normalize K (key ev)) (key_parse K ''Shift+F8'') \<longrightarrow>
        snd (keyEvent K a e ev) = (True, sendCommand a (''command'' @ [NL])))
   \<and> (\<not> isRelease ev \<and> \<not> key_check K (key_normalize K (key ev)) (key_parse K ''Shift+F8'')
        \<and> checkKeyList K (key_normalize K (key ev)) (toggleKeys e) \<longrightarrow>
        snd (keyEvent K a e ev) = (True, sendCommand a (''toggle'' @ [NL])))
   \<and> (\<not> isRelease ev \<and> \<not> key_check K (key_normalize K (key ev)) (key_parse K ''Shift+F8'')
        \<and> \<not> checkKeyList K (key_normalize K (key ev)) (toggleKeys e) \<longrightarrow>
        snd (keyEvent K a e ev) = (False, []))
   \<and> checkKeyList K k ks = (\<exists>k' \<in> set ks. key_check K k k')
   \<and> (0 \<le> open_ret a \<longrightarrow>
        writes (sendCommand a (''command'' @ [NL])) = [''command'' @ [NL]]
        \<and> writes (sendCommand a (''toggle'' @ [NL])) = [''toggle'' @ [NL]])"
  by (simp add: keyEvent_def Let_def checkKeyList_def list_ex_iff writes_sendCommand strlen_def)

theorem keyEvent_dispatch_witness:
  "keyEvent sample_keys \<lparr>open_ret = 7, write_ret = 8\<rparr>
      \<lparr>activeIC = Some 2, pending = ''ab'', toggleKeys = [xkey_parse ''F9''], commits = []\<rparr>
      \<lparr>isRelease = True, key = xkey_parse ''Shift+F8'', inputContext = 3\<rparr>
     = (\<lparr>activeIC = Some 2, pending = ''ab'', toggleKeys = [xkey_parse ''F9''], commits = []\<rparr>, False, [])
   \<and> keyEvent sample_keys \<lparr>open_ret = 7, write_ret = 8\<rparr>
      \<lparr>activeIC = Some 2, pending = ''ab'', toggleKeys = [xkey_parse ''F9''], commits = []\<rparr>
      \<lparr>isRelease = False, key = xkey_parse ''Shift+F8'', inputContext = 3\<rparr>
     = (\<lparr>activeIC = Some 3, pending = ''ab'', toggleKeys = [xkey_parse ''F9''], commits = []\<rparr>, True,
        [Open kCmdFifo, Write 7 (''command'' @ [NL]), Close 7])
   \<and> keyEvent sample_keys \<lparr>open_ret = 7, write_ret = 7\<rparr>
      \<lparr>activeIC = Some 2, pending = ''ab'', toggleKeys = [xkey_parse ''F9''], commits = []\<rparr>
      \<lparr>isRelease = False, key = xkey_parse ''F9'', inputContext = 3\<rparr>
     = (\<lparr>activeIC = Some 3, pending = ''ab'', toggleKeys = [xkey_parse ''F9''], commits = []\<rparr>, True,
        [Open kCmdFifo, Write 7 (''toggle'' @ [NL]), Close 7])
   \<and> keyEvent sample_keys \<lparr>open_ret = 7, write_ret = 7\<rparr>
      \<lparr>activeIC = None, pending = ''ab'', toggleKeys = [xkey_parse ''F9''], commits = []\<rparr>
      \<lparr>isRelease = False, key = xkey_parse ''a'', inputContext = 3\<rparr>
     = (\<lparr>activeIC = Some 3, pending = ''ab'', toggleKeys = [xkey_parse ''F9''], commits = []\<rparr>, False, [])"
proof -
  let ?e = "\<lparr>activeIC = Some 2, pending = ''ab'', toggleKeys = [xkey_parse ''F9''], commits = []\<rparr>"
  let ?a = "\<lparr>open_ret = 7, write_ret = 8\<rparr>"
  let ?b = "\<lparr>open_ret = 7, write_ret = 7\<rparr>"
  have p: "xkey_parse ''Shift+F8'' \<noteq> xkey_parse ''F9''" "xkey_parse ''a'' \<noteq> xkey_parse ''F9''"
    "xkey_parse ''a'' \<noteq> xkey_parse ''Shift+F8''" "xkey_parse ''F9'' \<noteq> xkey_parse ''Shift+F8''"
    by (simp_all add: xkey_parse_def)
  have 1: "keyEvent sample_keys ?a ?e \<lparr>isRelease = True, key = xkey_parse ''Shift+F8'', inputContext = 3\<rparr>
      = (?e, False, [])"
    using keyEvent_dispatch [of "\<lparr>isRelease = True, key = xkey_parse ''Shift+F8'', inputContext = 3\<rparr>"
        sample_keys ?a ?e "xkey_parse ''a''" "[]"]
    by simp
  have 2: "keyEvent sample_keys ?a ?e \<lparr>isRelease = False, key = xkey_parse ''Shift+F8'', inputContext = 3\<rparr>
      = (?e\<lparr>activeIC := Some 3\<rparr>, True, [Open kCmdFifo, Write 7 (''command'' @ [NL]), Close 7])"
    using keyEvent_dispatch [of "\<lparr>isRelease = False, key = xkey_parse ''Shift+F8'', inputContext = 3\<rparr>"
        sample_keys ?a ?e "xkey_parse ''a''" "[]"]
    by (simp add: prod_eq_iff sample_keys_def sendCommand_def strlen_def)
  have 3: "keyEvent sample_keys ?b ?e \<lparr>isRelease = False, key = xkey_parse ''F9'', inputContext = 3\<rparr>
      = (?e\<lparr>activeIC := Some 3\<rparr>, True, [Open kCmdFifo, Write 7 (''toggle'' @ [NL]), Close 7])"
    using keyEvent_dispatch [of "\<lparr>isRelease = False, key = xkey_parse ''F9'', inputContext = 3\<rparr>"
        sample_keys ?b ?e "xkey_parse ''a''" "[]"]
    by (simp add: prod_eq_iff sample_keys_def sendCommand_def strlen_def p checkKeyList_def)
  have 4: "keyEvent sample_keys ?b (?e\<lparr>activeIC := None\<rparr>)
       \<lparr>isRelease = False, key = xkey_parse ''a'', inputContext = 3\<rparr>
      = (?e\<lparr>activeIC := Some 3\<rparr>, False, [])"
    using keyEvent_dispatch [of "\<lparr>isRelease = False, key = xkey_parse ''a'', inputContext = 3\<rparr>"
        sample_keys ?b "?e\<lparr>activeIC := None\<rparr>" "xkey_parse ''a''" "[]"]
    by (simp add: prod_eq_iff sample_keys_def sendCommand_def strlen_def p checkKeyList_def)
  from 1 2 3 4 show ?thesis by simp
qed

text \<open>
  C5. With no active context the commit step drops its line: \<open>commitLine\<close> returns the
  engine as it is. A run of the read handler then changes nothing but the pending buffer,
  which keeps only the bytes after the last newline: no complete line is committed and none
  is stored. When a context becomes active afterwards, the commits of the next run are the
  lines completed from that remainder and the new bytes; the dropped lines are not among
  them.
\<close>

theorem no_target_drops_lines:
  assumes "activeIC e = None"
  shows "commitLine e text = e
    \<and> onCommitReadable e rs = e\<lparr>pending := partial_line (pending e @ drained rs)\<rparr>
    \<and> commits (onCommitReadable (activate (onCommitReadable e rs) c) rs') =
        commits e @ map (Pair c) (filter (\<lambda>l. l \<noteq> [])
          (map pop_cr (complete_lines (partial_line (pending e @ drained rs) @ drained rs'))))"
proof -
  have a: "commitLine e text = e"
    using assms by (simp add: commitLine_def)
  have b: "onCommitReadable e rs = e\<lparr>pending := partial_line (pending e @ drained rs)\<rparr>"
    using assms by (simp add: onCommitReadable_split foldl_commitLine_inactive)
  have "activeIC (activate (onCommitReadable e rs) c) = Some c"
    by (simp add: activate_def)
  from commits_onCommitReadable [OF this, of rs']
  have c: "commits (onCommitReadable (activate (onCommitReadable e rs) c) rs') =
        commits e @ map (Pair c) (filter (\<lambda>l. l \<noteq> [])
          (map pop_cr (complete_lines (partial_line (pending e @ drained rs) @ drained rs'))))"
    by (simp add: b activate_def)
  from a b c show ?thesis by blast
qed

theorem no_target_drops_lines_witness:
  "activeIC \<lparr>activeIC = None, pending = ''x'', toggleKeys = [] :: unit list, commits = [(2, ''old'')]\<rparr> = None
   \<and> onCommitReadable \<lparr>activeIC = None, pending = ''x'', toggleKeys = [] :: unit list, commits = [(2, ''old'')]\<rparr>
        [ReadBytes (''y'' @ [NL] @ ''lost'' @ [NL] @ ''ta'')]
      = \<lparr>activeIC = None, pending = ''ta'', toggleKeys = [], commits = [(2, ''old'')]\<rparr>
   \<and> commits (onCommitReadable (activate (onCommitReadable
          \<lparr>activeIC = None, pending = ''x'', toggleKeys = [] :: unit list, commits = [(2, ''old'')]\<rparr>
          [ReadBytes (''y'' @ [NL] @ ''lost'' @ [NL] @ ''ta'')]) 5) [ReadBytes (''il'' @ [NL])])
      = [(2, ''old''), (5, ''tail'')]"
proof -
  let ?e = "\<lparr>activeIC = None, pending = ''x'', toggleKeys = [] :: unit list, commits = [(2, ''old'')]\<rparr>"
  have h: "activeIC ?e = None" by simp
  note t = no_target_drops_lines [OF h, of "''lost''" "[ReadBytes (''y'' @ [NL] @ ''lost'' @ [NL] @ ''ta'')]" 5
        "[ReadBytes (''il'' @ [NL])]"]
  from t have a: "onCommitReadable ?e [ReadBytes (''y'' @ [NL] @ ''lost'' @ [NL] @ ''ta'')] =
      \<lparr>activeIC = None, pending = ''ta'', toggleKeys = [], commits = [(2, ''old'')]\<rparr>"
    by (simp add: partial_line_def)
  from t have "commits (onCommitReadable (activate (onCommitReadable ?e
        [ReadBytes (''y'' @ [NL] @ ''lost'' @ [NL] @ ''ta'')]) 5) [ReadBytes (''il'' @ [NL])]) =
      commits ?e @ map (Pair 5) (filter (\<lambda>l. l \<noteq> [])
          (map pop_cr (complete_lines (partial_line (pending ?e @
             drained [ReadBytes (''y'' @ [NL] @ ''lost'' @ [NL] @ ''ta'')]) @
             drained [ReadBytes (''il'' @ [NL])]))))"
    by blast
  also have "\<dots> = [(2, ''old''), (5, ''tail'')]"
    by (simp add: partial_line_def complete_lines_def pop_cr_def)
  finally have b: "commits (onCommitReadable (activate (onCommitReadable ?e
        [ReadBytes (''y'' @ [NL] @ ''lost'' @ [NL] @ ''ta'')]) 5) [ReadBytes (''il'' @ [NL])]) =
      [(2, ''old''), (5, ''tail'')]" .
  from h a b show ?thesis by blast
qed

text \<open>
  C6 (amended). Each candidate line loses one trailing carriage return, if it ends with
  one, and is committed unless it is then empty: with an active context the commits of a
  run are the non-empty results of \<open>pop_cr\<close> on the complete lines, in order. \<open>pop_cr\<close>
  removes exactly the last byte of a line that ends with \<open>'\r'\<close> and leaves any other line
  as it is. So \<open>"hello\r\n"\<close> commits \<open>"hello"\<close>, and \<open>"a\n\nb\n"\<close> commits \<open>"a"\<close>, then
  \<open>"b"\<close>, and nothing for the empty line between them.
\<close>

theorem line_postprocessing:
  "(activeIC e = Some c \<longrightarrow>
      commits (onCommitReadable e rs) =
        commits e @ map (Pair c) (filter (\<lambda>l. l \<noteq> [])
          (map pop_cr (complete_lines (pending e @ drained rs)))))
   \<and> pop_cr (l @ [CR]) = l
   \<and> (l = [] \<or> last l \<noteq> CR \<longrightarrow> pop_cr l = l)
   \<and> (activeIC e = Some c \<and> pending e = [] \<longrightarrow>
        commits (onCommitReadable e [ReadBytes (''hello'' @ [CR, NL])]) = commits e @ [(c, ''hello'')])
   \<and> (activeIC e = Some c \<and> pending e = [] \<longrightarrow>
        commits (onCommitReadable e [ReadBytes (''a'' @ [NL, NL] @ ''b'' @ [NL])]) =
          commits e @ [(c, ''a''), (c, ''b'')])"
  by (simp add: commits_onCommitReadable pop_cr_snoc pop_cr_keep)
    (simp add: complete_lines_def pop_cr_def)

theorem line_postprocessing_witness:
  "commits (onCommitReadable \<lparr>activeIC = Some 4, pending = [], toggleKeys = [] :: unit list, commits = []\<rparr>
       [ReadBytes (''hello'' @ [CR, NL])]) = [(4, ''hello'')]
   \<and> commits (onCommitReadable \<lparr>activeIC = Some 4, pending = [], toggleKeys = [] :: unit list, commits = []\<rparr>
       [ReadBytes (''a'' @ [NL, NL] @ ''b'' @ [NL])]) = [(4, ''a''), (4, ''b'')]
   \<and> pop_cr ([CR] @ [CR]) = [CR]
   \<and> pop_cr ''b'' = ''b''"
  using line_postprocessing [of "\<lparr>activeIC = Some 4, pending = [], toggleKeys = [] :: unit list, commits = []\<rparr>"
      4 "[]" "[CR]"]
    line_postprocessing [of "\<lparr>activeIC = Some 4, pending = [], toggleKeys = [] :: unit list, commits = []\<rparr>"
      4 "[]" "''b''"]
  by simp

text \<open>
  C6 as stated, with all trailing carriage returns stripped, fails: the line \<open>"x\r\r"\<close> is
  committed as \<open>"x\r"\<close>, which still ends with a carriage return, and a line of two carriage
  returns is committed as one carriage return and not skipped.
\<close>

theorem all_trailing_crs_counterexample:
  "commits (onCommitReadable \<lparr>activeIC = Some 4, pending = [], toggleKeys = [] :: unit list, commits = []\<rparr>
       [ReadBytes (''x'' @ [CR, CR, NL])]) = [(4, ''x'' @ [CR])]
   \<and> commits (onCommitReadable \<lparr>activeIC = Some 4, pending = [], toggleKeys = [] :: unit list, commits = []\<rparr>
       [ReadBytes (''x'' @ [CR, CR, NL])]) \<noteq> [(4, strip_trailing_crs (''x'' @ [CR, CR]))]
   \<and> strip_trailing_crs (''x'' @ [CR, CR]) = ''x''
   \<and> commits (onCommitReadable \<lparr>activeIC = Some 4, pending = [], toggleKeys = [] :: unit list, commits = []\<rparr>
       [ReadBytes [CR, CR, NL]]) = [(4, [CR])]
   \<and> strip_trailing_crs [CR, CR] = []"
  by (simp add: commits_onCommitReadable complete_lines_def pop_cr_def strip_trailing_crs_def)

text \<open>
  C7. A run of the read handler hands to the commit step exactly the complete lines of the
  bytes at hand (old buffer, then the bytes read), in order, and nothing else: the engine
  after the run is the one reached by these calls of \<open>commitLine\<close>, with the bytes after
  the last newline as the pending buffer. So the trailing partial line is never committed:
  with an active context the commits added are the non-empty complete lines, with none
  they are nothing. After every run the pending buffer holds no newline, and the complete
  lines, each with its newline, followed by the buffer give back the bytes. A run that
  brings no newline commits nothing and leaves the partial line in the buffer, grown by
  the bytes read; a later run that brings the newline hands the whole line to the commit
  step and empties the buffer.
\<close>

theorem pending_invariant:
  "NL \<notin> set (pending (onCommitReadable e rs))
   \<and> onCommitReadable e rs =
        foldl commitLine (e\<lparr>pending := partial_line (pending e @ drained rs)\<rparr>)
          (map pop_cr (complete_lines (pending e @ drained rs)))
   \<and> pending (onCommitReadable e rs) = partial_line (pending e @ drained rs)
   \<and> (\<forall>c. activeIC e = Some c \<longrightarrow>
        commits (onCommitReadable e rs) =
          commits e @ map (Pair c) (filter (\<lambda>l. l \<noteq> [])
            (map pop_cr (complete_lines (pending e @ drained rs)))))
   \<and> (activeIC e = None \<longrightarrow> commits (onCommitReadable e rs) = commits e)
   \<and> concat (map (\<lambda>l. l @ [NL]) (complete_lines (pending e @ drained rs)))
        @ pending (onCommitReadable e rs) = pending e @ drained rs
   \<and> (NL \<notin> set (pending e) \<and> NL \<notin> set (drained rs) \<longrightarrow>
        onCommitReadable e rs = e\<lparr>pending := pending e @ drained rs\<rparr>)
   \<and> (NL \<notin> set (pending e) \<and> NL \<notin> set t \<longrightarrow>
        onCommitReadable e [ReadBytes (t @ [NL])] =
          commitLine (e\<lparr>pending := []\<rparr>) (pop_cr (pending e @ t)))"
proof -
  have a: "NL \<notin> set (pending (onCommitReadable e rs))"
    by (simp add: pending_onCommitReadable partial_line_no_NL)
  note s = onCommitReadable_split [of e rs]
  note p = pending_onCommitReadable [of e rs]
  have ca: "\<forall>c. activeIC e = Some c \<longrightarrow>
        commits (onCommitReadable e rs) =
          commits e @ map (Pair c) (filter (\<lambda>l. l \<noteq> [])
            (map pop_cr (complete_lines (pending e @ drained rs))))"
    by (simp add: commits_onCommitReadable)
  have cn: "activeIC e = None \<longrightarrow> commits (onCommitReadable e rs) = commits e"
    by (simp add: onCommitReadable_split foldl_commitLine_inactive)
  have b: "concat (map (\<lambda>l. l @ [NL]) (complete_lines (pending e @ drained rs)))
        @ pending (onCommitReadable e rs) = pending e @ drained rs"
    unfolding pending_onCommitReadable complete_lines_def partial_line_def
    by (rule split_nl_join)
  have c: "onCommitReadable e rs = e\<lparr>pending := pending e @ drained rs\<rparr>"
    if "NL \<notin> set (pending e) \<and> NL \<notin> set (drained rs)"
  proof -
    from that have "NL \<notin> set (pending e @ drained rs)" by simp
    then show ?thesis
      by (simp only: onCommitReadable_split complete_lines_no_newline partial_line_no_newline)
        simp
  qed
  have d: "onCommitReadable e [ReadBytes (t @ [NL])] =
          commitLine (e\<lparr>pending := []\<rparr>) (pop_cr (pending e @ t))"
    if "NL \<notin> set (pending e) \<and> NL \<notin> set t"
  proof -
    from that have n: "NL \<notin> set (pending e @ t)" by simp
    from split_nl_terminated [OF n]
    have "split_nl (pending e @ t @ [NL]) = [pending e @ t, []]" by simp
    then show ?thesis
      by (simp add: onCommitReadable_split complete_lines_def partial_line_def)
  qed
  from a s p ca cn b c d show ?thesis by blast
qed

theorem pending_invariant_witness:
  "onCommitReadable \<lparr>activeIC = Some 3, pending = ''par'', toggleKeys = [] :: unit list, commits = []\<rparr>
       [ReadBytes ''tial'', ReadError EAGAIN]
     = \<lparr>activeIC = Some 3, pending = ''partial'', toggleKeys = [], commits = []\<rparr>
   \<and> onCommitReadable \<lparr>activeIC = Some 3, pending = ''partial'', toggleKeys = [] :: unit list, commits = []\<rparr>
       [ReadBytes ('' line'' @ [NL])]
     = \<lparr>activeIC = Some 3, pending = [], toggleKeys = [], commits = [(3, ''partial line'')]\<rparr>
   \<and> onCommitReadable \<lparr>activeIC = Some 3, pending = [], toggleKeys = [] :: unit list, commits = []\<rparr>
       [ReadBytes (''a'' @ [NL] @ ''bc'')]
     = \<lparr>activeIC = Some 3, pending = ''bc'', toggleKeys = [], commits = [(3, ''a'')]\<rparr>"
proof -
  let ?e = "\<lparr>activeIC = Some 3, pending = ''par'', toggleKeys = [] :: unit list, commits = []\<rparr>"
  let ?e' = "\<lparr>activeIC = Some 3, pending = ''partial'', toggleKeys = [] :: unit list, commits = []\<rparr>"
  let ?z = "\<lparr>activeIC = Some 3, pending = [], toggleKeys = [] :: unit list, commits = []\<rparr>"
  have 1: "NL \<notin> set (pending ?e) \<and> NL \<notin> set (drained [ReadBytes ''tial'', ReadError EAGAIN])"
    by simp
  have 2: "NL \<notin> set (pending ?e') \<and> NL \<notin> set '' line''"
    by simp
  from 1 pending_invariant [of ?e "[ReadBytes ''tial'', ReadError EAGAIN]"]
  have a: "onCommitReadable ?e [ReadBytes ''tial'', ReadError EAGAIN] =
      ?e\<lparr>pending := pending ?e @ drained [ReadBytes ''tial'', ReadError EAGAIN]\<rparr>"
    by blast
  from 2 pending_invariant [of ?e' "[]" "'' line''"]
  have b: "onCommitReadable ?e' [ReadBytes ('' line'' @ [NL])] =
          commitLine (?e'\<lparr>pending := []\<rparr>) (pop_cr (pending ?e' @ '' line''))"
    by blast
  from pending_invariant [of ?z "[ReadBytes (''a'' @ [NL] @ ''bc'')]"]
  have "onCommitReadable ?z [ReadBytes (''a'' @ [NL] @ ''bc'')] =
      foldl commitLine
        (?z\<lparr>pending := partial_line (pending ?z @ drained [ReadBytes (''a'' @ [NL] @ ''bc'')])\<rparr>)
        (map pop_cr (complete_lines (pending ?z @ drained [ReadBytes (''a'' @ [NL] @ ''bc'')])))"
    by blast
  also have "\<dots> = \<lparr>activeIC = Some 3, pending = ''bc'', toggleKeys = [], commits = [(3, ''a'')]\<rparr>"
    by (simp add: partial_line_def complete_lines_def pop_cr_def commitLine_def)
  finally have c: "onCommitReadable ?z [ReadBytes (''a'' @ [NL] @ ''bc'')] =
      \<lparr>activeIC = Some 3, pending = ''bc'', toggleKeys = [], commits = [(3, ''a'')]\<rparr>" .
  show ?thesis
    unfolding a b c by (simp add: commitLine_def pop_cr_def)
qed




text \<open>
  C9. What \<open>sendCommand\<close> does is fixed by the results of its \<open>open\<close> and its \<open>write\<close>. When
  the open fails it logs a warning and does nothing else: no write, no further attempt,
  no error for the caller. When the open succeeds it does, in this order: the one \<open>open\<close>,
  one \<open>write\<close> on the descriptor that the open returned, of the bytes of the command up to
  its terminating NUL, a warning when that write failed, and the \<open>close\<close> of the same
  descriptor. A short or failed write is followed by no second write. For a token without
  NUL followed by a newline, and so for the two tokens of the engine, the bytes handed to
  the write are the token and one newline.
\<close>

theorem sendCommand_fire_and_forget:
  "opens (sendCommand a cmd) = [kCmdFifo]
   \<and> (open_ret a < 0 \<longrightarrow>
        sendCommand a cmd = [Open kCmdFifo, Warn ''ASR daemon command FIFO not ready''])
   \<and> (0 \<le> open_ret a \<and> 0 \<le> write_ret a \<longrightarrow>
        sendCommand a cmd =
          [Open kCmdFifo, Write (open_ret a) (take (strlen cmd) cmd), Close (open_ret a)])
   \<and> (0 \<le> open_ret a \<and> write_ret a < 0 \<longrightarrow>
        sendCommand a cmd =
          [Open kCmdFifo, Write (open_ret a) (take (strlen cmd) cmd),
           Warn ''Write command failed'', Close (open_ret a)])
   \<and> (0 \<le> open_ret a \<and> 0 \<le> write_ret a \<and> CHR 0x00 \<notin> set tok \<longrightarrow>
        sendCommand a (tok @ [NL]) =
          [Open kCmdFifo, Write (open_ret a) (tok @ [NL]), Close (open_ret a)])
   \<and> (0 \<le> open_ret a \<and> 0 \<le> write_ret a \<longrightarrow>
        sendCommand a (''toggle'' @ [NL]) =
          [Open kCmdFifo, Write (open_ret a) (''toggle'' @ [NL]), Close (open_ret a)]
        \<and> sendCommand a (''command'' @ [NL]) =
          [Open kCmdFifo, Write (open_ret a) (''command'' @ [NL]), Close (open_ret a)])
   \<and> (0 \<le> open_ret a \<longrightarrow>
        writes (sendCommand a cmd) = [take (strlen cmd) cmd]
        \<and> closes (sendCommand a cmd) = [open_ret a]
        \<and> last (sendCommand a cmd) = Close (open_ret a))
   \<and> (0 \<le> open_ret a \<and> CHR 0x00 \<notin> set tok \<and> NL \<notin> set tok \<longrightarrow>
        writes (sendCommand a (tok @ [NL])) = [tok @ [NL]])
   \<and> (0 \<le> open_ret a \<longrightarrow>
        writes (sendCommand a (''toggle'' @ [NL])) = [''toggle'' @ [NL]]
        \<and> writes (sendCommand a (''command'' @ [NL])) = [''command'' @ [NL]])"
proof -
  have a: "opens (sendCommand a cmd) = [kCmdFifo]" by (rule opens_sendCommand)
  have b: "open_ret a < 0 \<longrightarrow>
        sendCommand a cmd = [Open kCmdFifo, Warn ''ASR daemon command FIFO not ready'']"
    by (simp add: sendCommand_def)
  have x: "0 \<le> open_ret a \<and> 0 \<le> write_ret a \<longrightarrow>
        sendCommand a c' =
          [Open kCmdFifo, Write (open_ret a) (take (strlen c') c'), Close (open_ret a)]" for c'
    by (simp add: sendCommand_def Let_def)
  have y: "0 \<le> open_ret a \<and> write_ret a < 0 \<longrightarrow>
        sendCommand a cmd =
          [Open kCmdFifo, Write (open_ret a) (take (strlen cmd) cmd),
           Warn ''Write command failed'', Close (open_ret a)]"
    by (simp add: sendCommand_def Let_def)
  have z: "0 \<le> open_ret a \<and> 0 \<le> write_ret a \<and> CHR 0x00 \<notin> set tok \<longrightarrow>
        sendCommand a (tok @ [NL]) =
          [Open kCmdFifo, Write (open_ret a) (tok @ [NL]), Close (open_ret a)]"
  proof
    assume h: "0 \<le> open_ret a \<and> 0 \<le> write_ret a \<and> CHR 0x00 \<notin> set tok"
    then have "CHR 0x00 \<notin> set (tok @ [NL])" by simp
    then have "take (strlen (tok @ [NL])) (tok @ [NL]) = tok @ [NL]" by (rule strlen_no_nul)
    with h x [of "tok @ [NL]"] show "sendCommand a (tok @ [NL]) =
          [Open kCmdFifo, Write (open_ret a) (tok @ [NL]), Close (open_ret a)]"
      by simp
  qed
  have t1: "take (strlen (''toggle'' @ [NL])) (''toggle'' @ [NL]) = ''toggle'' @ [NL]"
    by (rule strlen_no_nul) simp
  have t2: "take (strlen (''command'' @ [NL])) (''command'' @ [NL]) = ''command'' @ [NL]"
    by (rule strlen_no_nul) simp
  have v: "0 \<le> open_ret a \<and> 0 \<le> write_ret a \<longrightarrow>
        sendCommand a (''toggle'' @ [NL]) =
          [Open kCmdFifo, Write (open_ret a) (''toggle'' @ [NL]), Close (open_ret a)]
        \<and> sendCommand a (''command'' @ [NL]) =
          [Open kCmdFifo, Write (open_ret a) (''command'' @ [NL]), Close (open_ret a)]"
    using x [of "''toggle'' @ [NL]"] x [of "''command'' @ [NL]"] unfolding t1 t2 by blast
  have c: "0 \<le> open_ret a \<longrightarrow>
        writes (sendCommand a cmd) = [take (strlen cmd) cmd]
        \<and> closes (sendCommand a cmd) = [open_ret a]
        \<and> last (sendCommand a cmd) = Close (open_ret a)"
    by (simp add: writes_sendCommand closes_sendCommand) (simp add: sendCommand_def Let_def)
  have d: "0 \<le> open_ret a \<and> CHR 0x00 \<notin> set tok \<and> NL \<notin> set tok \<longrightarrow>
        writes (sendCommand a (tok @ [NL])) = [tok @ [NL]]"
    using strlen_no_nul [of "tok @ [NL]"] by (simp add: writes_sendCommand)
  have e: "0 \<le> open_ret a \<longrightarrow>
        writes (sendCommand a (''toggle'' @ [NL])) = [''toggle'' @ [NL]]
        \<and> writes (sendCommand a (''command'' @ [NL])) = [''command'' @ [NL]]"
    by (simp add: writes_sendCommand strlen_def)
  from a b x [of cmd] y z v c d e show ?thesis by blast
qed

theorem sendCommand_fire_and_forget_witness:
  "sendCommand \<lparr>open_ret = -1, write_ret = 0\<rparr> (''toggle'' @ [NL]) =
      [Open kCmdFifo, Warn ''ASR daemon command FIFO not ready'']
   \<and> sendCommand \<lparr>open_ret = 7, write_ret = 3\<rparr> (''toggle'' @ [NL]) =
      [Open kCmdFifo, Write 7 (''toggle'' @ [NL]), Close 7]
   \<and> sendCommand \<lparr>open_ret = 7, write_ret = -1\<rparr> (''command'' @ [NL]) =
      [Open kCmdFifo, Write 7 (''command'' @ [NL]), Warn ''Write command failed'', Close 7]"
proof -
  let ?f = "\<lparr>open_ret = -1, write_ret = 0\<rparr>"
  let ?s = "\<lparr>open_ret = 7, write_ret = 3\<rparr>"
  let ?w = "\<lparr>open_ret = 7, write_ret = -1\<rparr>"
  note t1 = sendCommand_fire_and_forget [of ?f "''toggle'' @ [NL]" "''toggle''"]
  note t2 = sendCommand_fire_and_forget [of ?s "''toggle'' @ [NL]" "''toggle''"]
  note t3 = sendCommand_fire_and_forget [of ?w "''command'' @ [NL]" "''command''"]
  have h1: "open_ret ?f < 0" by simp
  have h2: "0 \<le> open_ret ?s \<and> 0 \<le> write_ret ?s" by simp
  have h3: "0 \<le> open_ret ?w \<and> write_ret ?w < 0" by simp
  have 1: "sendCommand ?f (''toggle'' @ [NL]) =
      [Open kCmdFifo, Warn ''ASR daemon command FIFO not ready'']"
    using t1 h1 by blast
  have "sendCommand ?s (''toggle'' @ [NL]) =
      [Open kCmdFifo, Write (open_ret ?s) (''toggle'' @ [NL]), Close (open_ret ?s)]"
    using t2 h2 by blast
  then have 2: "sendCommand ?s (''toggle'' @ [NL]) =
      [Open kCmdFifo, Write 7 (''toggle'' @ [NL]), Close 7]"
    by simp
  have "sendCommand ?w (''command'' @ [NL]) =
      [Open kCmdFifo, Write (open_ret ?w) (take (strlen (''command'' @ [NL])) (''command'' @ [NL])),
       Warn ''Write command failed'', Close (open_ret ?w)]"
    using t3 h3 by blast
  moreover have "take (strlen (''command'' @ [NL])) (''command'' @ [NL]) = ''command'' @ [NL]"
    by (rule strlen_no_nul) simp
  ultimately have 3: "sendCommand ?w (''command'' @ [NL]) =
      [Open kCmdFifo, Write 7 (''command'' @ [NL]), Warn ''Write command failed'', Close 7]"
    by simp
  from 1 2 3 show ?thesis by blast
qed

text \<open>
  C10. A focus-lost notification for a context other than the active one returns the
  engine unchanged, and so does a reset notification. Over all five kinds of events of the
  engine, the active context changes only at a focus-gained notification, at a key-press,
  or at a focus-lost notification for the active context.
\<close>

theorem target_frame:
  "(activeIC e \<noteq> Some c \<longrightarrow> deactivate e c = e)
   \<and> reset e c = e
   \<and> (activeIC (step K e ev) \<noteq> activeIC e \<longrightarrow>
        (\<exists>c'. ev = Activate c')
        \<or> (\<exists>kev a. ev = KeyEv kev a \<and> \<not> isRelease kev)
        \<or> (\<exists>c'. ev = Deactivate c' \<and> activeIC e = Some c'))
   \<and> activeIC (activate e c) = Some c
   \<and> (activeIC e = Some c \<longrightarrow> activeIC (deactivate e c) = None)"
proof -
  have a: "activeIC e \<noteq> Some c \<longrightarrow> deactivate e c = e"
    by (simp add: deactivate_def)
  have b: "reset e c = e" by (simp add: reset_def)
  have c: "activeIC (step K e ev) \<noteq> activeIC e \<longrightarrow>
        (\<exists>c'. ev = Activate c')
        \<or> (\<exists>kev a. ev = KeyEv kev a \<and> \<not> isRelease kev)
        \<or> (\<exists>c'. ev = Deactivate c' \<and> activeIC e = Some c')"
  proof (cases ev)
    case (Activate x)
    then show ?thesis by simp
  next
    case (Deactivate x)
    then show ?thesis by (simp add: deactivate_def)
  next
    case (Reset x)
    then show ?thesis by (simp add: reset_def)
  next
    case (KeyEv kev a)
    then show ?thesis by (cases "isRelease kev") (simp_all add: keyEvent_def)
  next
    case (CommitReadable rs)
    then show ?thesis by (simp add: onCommitReadable_split)
  qed
  have d: "activeIC (activate e c) = Some c" by (simp add: activate_def)
  have f: "activeIC e = Some c \<longrightarrow> activeIC (deactivate e c) = None"
    by (simp add: deactivate_def)
  from a b c d f show ?thesis by blast
qed

theorem target_frame_witness:
  "deactivate \<lparr>activeIC = Some 1, pending = ''p'', toggleKeys = [] :: unit list, commits = []\<rparr> 2
     = \<lparr>activeIC = Some 1, pending = ''p'', toggleKeys = [], commits = []\<rparr>
   \<and> deactivate \<lparr>activeIC = None, pending = ''p'', toggleKeys = [] :: unit list, commits = []\<rparr> 2
     = \<lparr>activeIC = None, pending = ''p'', toggleKeys = [], commits = []\<rparr>
   \<and> activeIC (deactivate \<lparr>activeIC = Some 1, pending = ''p'', toggleKeys = [] :: unit list, commits = []\<rparr> 1)
     = None
   \<and> reset \<lparr>activeIC = Some 1, pending = ''p'', toggleKeys = [] :: unit list, commits = []\<rparr> 1
     = \<lparr>activeIC = Some 1, pending = ''p'', toggleKeys = [], commits = []\<rparr>"
proof -
  let ?e = "\<lparr>activeIC = Some 1, pending = ''p'', toggleKeys = [] :: unit list, commits = []\<rparr>"
  let ?n = "\<lparr>activeIC = None, pending = ''p'', toggleKeys = [] :: unit list, commits = []\<rparr>"
  have h1: "activeIC ?e \<noteq> Some 2" by simp
  have h2: "activeIC ?n \<noteq> Some 2" by simp
  have h3: "activeIC ?e = Some 1" by simp
  from target_frame [of ?e 2] h1 have 1: "deactivate ?e 2 = ?e" by blast
  from target_frame [of ?n 2] h2 have 2: "deactivate ?n 2 = ?n" by blast
  from target_frame [of ?e 1] h3 have 3: "activeIC (deactivate ?e 1) = None" by blast
  from target_frame [of ?e 1] have 4: "reset ?e 1 = ?e" by blast
  from 1 2 3 4 show ?thesis by blast
qed

end
